theory Spec2Isabelle
  imports Main "HOL-Library.AList"
begin

section \<open>Values of the session provider\<close>

text \<open>
  The provider of \<^verbatim>\<open>context/AuthContext.js\<close> keeps three state cells: \<^verbatim>\<open>user\<close> (an
  object or \<^verbatim>\<open>null\<close>), \<^verbatim>\<open>token\<close> (a string or \<^verbatim>\<open>null\<close>) and \<^verbatim>\<open>loading\<close> (a boolean).
  An object is a list of fields in insertion order; \<^verbatim>\<open>null\<close> is \<open>None\<close>.
\<close>

type_synonym identity = "(string \<times> string) list"

record session =
  user :: "identity option"
  token :: "string option"
  loading :: bool

text \<open>
  A rejected request: the only part of the error that the application reads is
  \<^verbatim>\<open>error.response?.data?.detail\<close>.
\<close>

datatype error = AxiosError (detail: "string option")

text \<open>JavaScript truthiness of a string-or-null: \<^verbatim>\<open>null\<close> and \<^verbatim>\<open>""\<close> are falsy.\<close>

definition truthy :: "string option \<Rightarrow> bool" where
  "truthy t = (case t of None \<Rightarrow> False | Some s \<Rightarrow> s \<noteq> [])"

section \<open>The request-client factory\<close>

record config =
  baseURL :: string
  headers :: "(string \<times> string) list"

text \<open>
  \<^verbatim>\<open>headers: token ? { Authorization: `Bearer ${token}` } : {}\<close>
\<close>

definition auth_headers :: "string option \<Rightarrow> (string \<times> string) list" where
  "auth_headers tok =
     (case tok of
        None \<Rightarrow> []
      | Some s \<Rightarrow> if s \<noteq> [] then [(''Authorization'', ''Bearer '' @ s)] else [])"

text \<open>
  \<^verbatim>\<open>api\<close> is a \<^verbatim>\<open>useCallback\<close> closure with dependency \<^verbatim>\<open>[token]\<close>: the token it reads
  is the one of the render that created the closure, passed here as \<open>tok\<close>.
  \<^verbatim>\<open>API_URL\<close> comes from the process environment and is a parameter.
\<close>

definition api :: "string \<Rightarrow> string option \<Rightarrow> config" where
  "api API_URL tok = \<lparr>baseURL = API_URL, headers = auth_headers tok\<rparr>"

section \<open>The provider as a state machine\<close>

text \<open>
  What the provider does to the outside: it evaluates \<^verbatim>\<open>localStorage.getItem('token')\<close>
  and it sends requests (method, path, headers, body).
\<close>

datatype event =
  GetItem
| Request string string "(string \<times> string) list" "(string \<times> string) list"

text \<open>
  \<open>cur\<close> holds the state cells, \<open>seen\<close> the values that the closures of the last render
  captured (\<^verbatim>\<open>api\<close>, \<^verbatim>\<open>fetchUser\<close>, \<^verbatim>\<open>login\<close>, \<^verbatim>\<open>register\<close> and the context value read
  by the route gates), \<open>storage\<close> the \<^verbatim>\<open>'token'\<close> entry of \<^verbatim>\<open>localStorage\<close>, and
  \<open>trace\<close> the events so far.
\<close>

record world =
  cur :: session
  seen :: session
  storage :: "string option"
  trace :: "event list"

text \<open>
  The effect body \<^verbatim>\<open>fetchUser\<close> up to its \<^verbatim>\<open>await\<close>: with a truthy token it sends
  \<^verbatim>\<open>GET /auth/me\<close> through \<^verbatim>\<open>api()\<close> and suspends; otherwise it runs to the end, which is
  \<^verbatim>\<open>setLoading(false)\<close>.
\<close>

definition fetchUser :: "world \<Rightarrow> world" where
  "fetchUser w =
     (if truthy (token (seen w))
      then w\<lparr>trace := trace w @ [Request ''GET'' ''/auth/me'' (auth_headers (token (seen w))) []]\<rparr>
      else w\<lparr>cur := (cur w)\<lparr>loading := False\<rparr>\<rparr>)"

text \<open>
  The rest of \<^verbatim>\<open>fetchUser\<close> once the request has settled: \<^verbatim>\<open>setUser(response.data)\<close>, or
  the \<^verbatim>\<open>catch\<close> clause (\<^verbatim>\<open>removeItem\<close>, \<^verbatim>\<open>setToken(null)\<close>, \<^verbatim>\<open>setUser(null)\<close>); then
  \<^verbatim>\<open>setLoading(false)\<close>. The \<^verbatim>\<open>catch\<close> clause handles every rejection, so there is no
  error result.
\<close>

definition fetchUser_resume :: "error + identity \<Rightarrow> world \<Rightarrow> world" where
  "fetchUser_resume r w =
     (case r of
        Inr d \<Rightarrow> w\<lparr>cur := (cur w)\<lparr>user := Some d, loading := False\<rparr>\<rparr>
      | Inl e \<Rightarrow> w\<lparr>storage := None,
                   cur := (cur w)\<lparr>token := None, user := None, loading := False\<rparr>\<rparr>)"

text \<open>
  The first render: \<^verbatim>\<open>useState(null)\<close>, \<^verbatim>\<open>useState(localStorage.getItem('token'))\<close>,
  \<^verbatim>\<open>useState(true)\<close>, and then the effect.
\<close>

definition mount :: "string option \<Rightarrow> world" where
  "mount ls =
     (let s0 = \<lparr>user = None, token = ls, loading = True\<rparr>
      in fetchUser \<lparr>cur = s0, seen = s0, storage = ls, trace = [GetItem]\<rparr>)"

text \<open>
  A later render: the body of the provider runs again (the argument of \<^verbatim>\<open>useState\<close> is
  evaluated, its value unused), the closures capture the current cells, and the effect
  runs again when one of its dependencies \<^verbatim>\<open>[token, api]\<close> has changed; \<^verbatim>\<open>api\<close> changes
  exactly when \<^verbatim>\<open>token\<close> does.
\<close>

definition render :: "world \<Rightarrow> world" where
  "render w =
     (let w' = w\<lparr>seen := cur w, trace := trace w @ [GetItem]\<rparr>
      in if token (cur w) \<noteq> token (seen w) then fetchUser w' else w')"

text \<open>\<^verbatim>\<open>login\<close> up to its \<^verbatim>\<open>await\<close>, and after it. \<open>Inl\<close> is the rejection of the promise.\<close>

definition login :: "string \<Rightarrow> string \<Rightarrow> world \<Rightarrow> world" where
  "login email password w =
     w\<lparr>trace := trace w @ [Request ''POST'' ''/auth/login'' (auth_headers (token (seen w)))
                              [(''email'', email), (''password'', password)]]\<rparr>"

definition login_resume :: "error + (string \<times> identity) \<Rightarrow> world \<Rightarrow> world \<times> (error + identity)" where
  "login_resume r w =
     (case r of
        Inl e \<Rightarrow> (w, Inl e)
      | Inr (newToken, userData) \<Rightarrow>
          (w\<lparr>storage := Some newToken,
             cur := (cur w)\<lparr>token := Some newToken, user := Some userData\<rparr>\<rparr>,
           Inr userData))"

definition register :: "string \<Rightarrow> string \<Rightarrow> string \<Rightarrow> string \<Rightarrow> world \<Rightarrow> world" where
  "register email password username full_name w =
     w\<lparr>trace := trace w @ [Request ''POST'' ''/auth/register'' (auth_headers (token (seen w)))
                              [(''email'', email), (''password'', password),
                               (''username'', username), (''full_name'', full_name)]]\<rparr>"

definition register_resume :: "error + (string \<times> identity) \<Rightarrow> world \<Rightarrow> world \<times> (error + identity)" where
  "register_resume r w =
     (case r of
        Inl e \<Rightarrow> (w, Inl e)
      | Inr (newToken, userData) \<Rightarrow>
          (w\<lparr>storage := Some newToken,
             cur := (cur w)\<lparr>token := Some newToken, user := Some userData\<rparr>\<rparr>,
           Inr userData))"

definition logout :: "world \<Rightarrow> world" where
  "logout w = w\<lparr>storage := None, cur := (cur w)\<lparr>token := None, user := None\<rparr>\<rparr>"

text \<open>
  Object spread \<^verbatim>\<open>{ ...prev, ...userData }\<close>: the fields of each operand are assigned in
  turn to a fresh object; spreading \<^verbatim>\<open>null\<close> assigns nothing.
\<close>

definition assign :: "identity \<Rightarrow> identity \<Rightarrow> identity" where
  "assign obj props = foldl (\<lambda>acc (k, v). AList.update k v acc) obj props"

definition spread :: "identity option \<Rightarrow> identity \<Rightarrow> identity" where
  "spread prev userData =
     assign (assign [] (case prev of None \<Rightarrow> [] | Some p \<Rightarrow> p)) userData"

definition updateUser :: "identity \<Rightarrow> world \<Rightarrow> world" where
  "updateUser userData w = w\<lparr>cur := (cur w)\<lparr>user := Some (spread (user (cur w)) userData)\<rparr>\<rparr>"

section \<open>The route gates\<close>

text \<open>
  \<^verbatim>\<open>ProtectedRoute\<close> and \<^verbatim>\<open>PublicRoute\<close> read \<^verbatim>\<open>user\<close> and \<^verbatim>\<open>loading\<close> of the context
  value and return a placeholder, a \<^verbatim>\<open>Navigate\<close> element or their children.
\<close>

datatype element = LoadingScreen | Spinner | Navigate string | Children

definition ProtectedRoute :: "session \<Rightarrow> element" where
  "ProtectedRoute ctx =
     (if loading ctx then LoadingScreen
      else if user ctx = None then Navigate ''/auth''
      else Children)"

definition PublicRoute :: "session \<Rightarrow> element" where
  "PublicRoute ctx =
     (if loading ctx then Spinner
      else if user ctx \<noteq> None then Navigate ''/''
      else Children)"

text \<open>
  The source has no status cell. \<open>status_of\<close> follows section 3 of the specification
  word by word: the status is authenticated if and only if token and identity are both
  present, resolving only while the initial check is pending (\<^verbatim>\<open>loading\<close>), and
  anonymous otherwise.
\<close>

datatype status = Resolving | Anonymous | Authenticated

definition status_of :: "session \<Rightarrow> status" where
  "status_of s =
     (if token s \<noteq> None \<and> user s \<noteq> None then Authenticated
      else if loading s then Resolving
      else Anonymous)"

text \<open>
  The gates act on a session as its status prescribes: the protected gate shows its
  children exactly in status authenticated, the loading placeholder in resolving and the
  redirect to \<^verbatim>\<open>/auth\<close> in anonymous; the public-only gate shows its children exactly in
  status anonymous, a placeholder in resolving and the redirect to \<^verbatim>\<open>/\<close> in
  authenticated.
\<close>

definition session_inv :: "session \<Rightarrow> bool" where
  "session_inv s =
     (ProtectedRoute s =
        (case status_of s of
           Resolving \<Rightarrow> LoadingScreen | Anonymous \<Rightarrow> Navigate ''/auth''
         | Authenticated \<Rightarrow> Children)
      \<and> PublicRoute s =
        (case status_of s of
           Resolving \<Rightarrow> Spinner | Anonymous \<Rightarrow> Children
         | Authenticated \<Rightarrow> Navigate ''/''))"

section \<open>The submit handler of the entry page\<close>

text \<open>
  \<^verbatim>\<open>handleSubmit\<close> of \<^verbatim>\<open>pages/AuthPage.js\<close>, with \<open>r\<close> the answer to its request: the \<^verbatim>\<open>try\<close>
  block awaits \<^verbatim>\<open>login\<close> or \<^verbatim>\<open>register\<close>, shows a success toast and navigates to
  \<^verbatim>\<open>'/'\<close>; the \<^verbatim>\<open>catch\<close> block shows
  \<^verbatim>\<open>error.response?.data?.detail || 'Something went wrong'\<close>. The page's own
  \<^verbatim>\<open>loading\<close> flag of the submit button is left out.
\<close>

datatype toast = Success string | Failure string

record submitted =
  shown :: toast
  navigated :: "string option"

definition try_catch :: "error + 'a \<Rightarrow> (error \<Rightarrow> error + 'a) \<Rightarrow> error + 'a" where
  "try_catch body handler = (case body of Inl e \<Rightarrow> handler e | Inr x \<Rightarrow> Inr x)"

definition handleSubmit ::
  "bool \<Rightarrow> string \<Rightarrow> string \<Rightarrow> string \<Rightarrow> string \<Rightarrow> error + (string \<times> identity) \<Rightarrow> world
   \<Rightarrow> world \<times> (error + submitted)" where
  "handleSubmit isLogin email password username fullName r w =
     (let (w', res) = (if isLogin then login_resume r (login email password w)
                       else register_resume r (register email password username fullName w))
      in (w',
          try_catch
            (case res of
               Inl e \<Rightarrow> Inl e
             | Inr u \<Rightarrow>
                 Inr \<lparr>shown = Success (if isLogin then ''Welcome back!''
                                       else ''Account created successfully!''),
                      navigated = Some ''/''\<rparr>)
            (\<lambda>e. Inr \<lparr>shown = Failure (case detail e of
                                          None \<Rightarrow> ''Something went wrong''
                                        | Some d \<Rightarrow> if d \<noteq> [] then d
                                                    else ''Something went wrong''),
                       navigated = None\<rparr>)))"

section \<open>Process start\<close>

text \<open>
  Process start with \<open>ls\<close> in storage: the first render and its effect, the answer \<open>r\<close> to
  the identity check when one was sent, and the render that follows.
\<close>

definition initialize :: "string option \<Rightarrow> error + identity \<Rightarrow> world" where
  "initialize ls r =
     (if truthy ls then render (fetchUser_resume r (mount ls)) else render (mount ls))"

text \<open>The requests to \<^verbatim>\<open>/auth/me\<close> and the storage reads of a trace.\<close>

definition identity_fetches :: "event list \<Rightarrow> event list" where
  "identity_fetches es =
     filter (\<lambda>e. case e of Request m p h b \<Rightarrow> p = ''/auth/me'' | GetItem \<Rightarrow> False) es"

definition storage_reads :: "event list \<Rightarrow> nat" where
  "storage_reads es = length (filter (\<lambda>e. e = GetItem) es)"

section \<open>The provider among its requests\<close>

text \<open>
  Calls of the context functions and answers of the backend arrive one at a time, in any
  order. Nothing in the provider cancels a request or an effect, so an answer is processed
  whenever it arrives. A request is in flight from the moment it is sent (it is in the
  trace) until its answer has been processed (it is counted).
\<close>

definition sent :: "string \<Rightarrow> world \<Rightarrow> nat" where
  "sent path w =
     length (filter (\<lambda>e. case e of Request m p h b \<Rightarrow> p = path | GetItem \<Rightarrow> False) (trace w))"

record sys =
  wld :: world
  me_answered :: nat
  login_answered :: nat
  register_answered :: nat

definition me_in_flight :: "sys \<Rightarrow> nat" where
  "me_in_flight s = sent ''/auth/me'' (wld s) - me_answered s"

definition login_in_flight :: "sys \<Rightarrow> nat" where
  "login_in_flight s = sent ''/auth/login'' (wld s) - login_answered s"

definition register_in_flight :: "sys \<Rightarrow> nat" where
  "register_in_flight s = sent ''/auth/register'' (wld s) - register_answered s"

text \<open>
  The process after its first task: the first render and its effect and, when the effect
  has set \<^verbatim>\<open>loading\<close> at once (no truthy token), the render that follows.
\<close>

definition boot :: "string option \<Rightarrow> sys" where
  "boot ls =
     \<lparr>wld = (if truthy ls then mount ls else render (mount ls)),
      me_answered = 0, login_answered = 0, register_answered = 0\<rparr>"

datatype action =
  CallLogin string string
| AnswerLogin "error + (string \<times> identity)"
| CallRegister string string string string
| AnswerRegister "error + (string \<times> identity)"
| AnswerMe "error + identity"
| CallLogout
| CallUpdateUser identity

text \<open>
  One task. A call runs the function up to its \<^verbatim>\<open>await\<close> or to its end; an answer runs
  the continuation of a request in flight (\<open>None\<close> when there is none). A task that has
  called a setter is followed by a render.
\<close>

fun step :: "action \<Rightarrow> sys \<Rightarrow> sys option" where
  "step (CallLogin email password) s = Some (s\<lparr>wld := login email password (wld s)\<rparr>)"
| "step (AnswerLogin r) s =
     (if login_in_flight s = 0 then None
      else Some (s\<lparr>wld := (case r of Inl e \<Rightarrow> wld s
                             | Inr a \<Rightarrow> render (fst (login_resume r (wld s)))),
                    login_answered := Suc (login_answered s)\<rparr>))"
| "step (CallRegister email password username full_name) s =
     Some (s\<lparr>wld := register email password username full_name (wld s)\<rparr>)"
| "step (AnswerRegister r) s =
     (if register_in_flight s = 0 then None
      else Some (s\<lparr>wld := (case r of Inl e \<Rightarrow> wld s
                             | Inr a \<Rightarrow> render (fst (register_resume r (wld s)))),
                    register_answered := Suc (register_answered s)\<rparr>))"
| "step (AnswerMe r) s =
     (if me_in_flight s = 0 then None
      else Some (s\<lparr>wld := render (fetchUser_resume r (wld s)),
                    me_answered := Suc (me_answered s)\<rparr>))"
| "step CallLogout s = Some (s\<lparr>wld := render (logout (wld s))\<rparr>)"
| "step (CallUpdateUser userData) s = Some (s\<lparr>wld := render (updateUser userData (wld s))\<rparr>)"

fun exec :: "action list \<Rightarrow> sys \<Rightarrow> sys option" where
  "exec [] s = Some s"
| "exec (a # as) s = (case step a s of None \<Rightarrow> None | Some s' \<Rightarrow> exec as s')"

text \<open>
  \<open>orderly\<close>: every task of the sequence can run, \<^verbatim>\<open>login\<close> and \<^verbatim>\<open>register\<close> are called
  only while no request is in flight, \<^verbatim>\<open>logout\<close> only while no identity check is in
  flight, and \<^verbatim>\<open>updateUser\<close> only while an identity is present.
\<close>

definition idle :: "sys \<Rightarrow> bool" where
  "idle s = (me_in_flight s = 0 \<and> login_in_flight s = 0 \<and> register_in_flight s = 0)"

fun allowed :: "action \<Rightarrow> sys \<Rightarrow> bool" where
  "allowed (CallLogin email password) s = idle s"
| "allowed (CallRegister email password username full_name) s = idle s"
| "allowed CallLogout s = (me_in_flight s = 0)"
| "allowed (CallUpdateUser userData) s = (user (cur (wld s)) \<noteq> None)"
| "allowed (AnswerLogin r) s = True"
| "allowed (AnswerRegister r) s = True"
| "allowed (AnswerMe r) s = True"

fun orderly :: "action list \<Rightarrow> sys \<Rightarrow> bool" where
  "orderly [] s = True"
| "orderly (a # as) s =
     (allowed a s \<and> (case step a s of None \<Rightarrow> False | Some s' \<Rightarrow> orderly as s'))"

text \<open>
  What a sequence of tasks leaves behind in the world, \<open>None\<close> when a task cannot run.
\<close>

definition after :: "(world \<Rightarrow> 'a) \<Rightarrow> action list \<Rightarrow> sys \<Rightarrow> 'a option" where
  "after f acts s = map_option (\<lambda>s'. f (wld s')) (exec acts s)"

text \<open>
  \<open>stable\<close> is what orderly sequences maintain: the rendered values are the cells, an
  identity is present only with a token, \<^verbatim>\<open>loading\<close> is set only while the first identity
  check is in flight, at most one request is in flight, and an identity check is in flight
  only while a token is present.
\<close>

definition stable :: "sys \<Rightarrow> bool" where
  "stable s =
     (seen (wld s) = cur (wld s)
      \<and> (user (cur (wld s)) \<noteq> None \<longrightarrow> token (cur (wld s)) \<noteq> None)
      \<and> (loading (cur (wld s)) \<longrightarrow>
           user (cur (wld s)) = None \<and> 0 < me_in_flight s \<and> me_answered s = 0)
      \<and> me_in_flight s + login_in_flight s + register_in_flight s \<le> 1
      \<and> (0 < me_in_flight s \<longrightarrow> token (cur (wld s)) \<noteq> None))"

section \<open>Helper facts\<close>

lemma map_of_assign: "map_of (assign obj ps) = map_of obj ++ map_of (rev ps)"
  unfolding assign_def
  by (induction ps arbitrary: obj)
     (auto simp: update_conv' map_add_def fun_eq_iff split: option.splits)

lemma map_of_rev_distinct: "distinct (map fst xs) \<Longrightarrow> map_of (rev xs) = map_of xs"
proof (induction xs)
  case Nil
  then show ?case by simp
next
  case (Cons x xs)
  obtain k v where x: "x = (k, v)" by (cases x)
  from Cons.prems x have "map_of xs k = None"
    by (simp add: map_of_eq_None_iff)
  with Cons x show ?case
    by (auto simp: map_add_def fun_eq_iff split: option.splits)
qed

lemma distinct_assign: "distinct (map fst obj) \<Longrightarrow> distinct (map fst (assign obj ps))"
  unfolding assign_def
  by (induction ps arbitrary: obj) (auto simp: distinct_update)

lemma sent_login:
  "sent p (login email password w) = sent p w + (if p = ''/auth/login'' then 1 else 0)"
  by (simp add: sent_def login_def)

lemma sent_register:
  "sent p (register email password username full_name w)
     = sent p w + (if p = ''/auth/register'' then 1 else 0)"
  by (simp add: sent_def register_def)

lemma sent_render:
  "sent p (render w) =
     sent p w + (if p = ''/auth/me'' \<and> token (cur w) \<noteq> token (seen w) \<and> truthy (token (cur w))
                 then 1 else 0)"
  by (simp add: sent_def render_def fetchUser_def Let_def)

lemma sent_silent:
  "sent p (fetchUser_resume r' w) = sent p w"
  "sent p (fst (login_resume r w)) = sent p w"
  "sent p (fst (register_resume r w)) = sent p w"
  "sent p (logout w) = sent p w"
  "sent p (updateUser userData w) = sent p w"
  by (simp_all add: sent_def fetchUser_resume_def login_resume_def register_resume_def
        logout_def updateUser_def split: sum.split prod.split)

lemma call_cells:
  "cur (login email password w) = cur w"
  "seen (login email password w) = seen w"
  "cur (register email password username full_name w) = cur w"
  "seen (register email password username full_name w) = seen w"
  by (simp_all add: login_def register_def)

lemma answer_cells:
  "cur (fst (login_resume (Inr (t, u)) w)) = (cur w)\<lparr>token := Some t, user := Some u\<rparr>"
  "seen (fst (login_resume r w)) = seen w"
  "cur (fst (register_resume (Inr (t, u)) w)) = (cur w)\<lparr>token := Some t, user := Some u\<rparr>"
  "seen (fst (register_resume r w)) = seen w"
  "cur (fetchUser_resume (Inr d) w) = (cur w)\<lparr>user := Some d, loading := False\<rparr>"
  "cur (fetchUser_resume (Inl e) w) = (cur w)\<lparr>token := None, user := None, loading := False\<rparr>"
  "seen (fetchUser_resume r' w) = seen w"
  "cur (logout w) = (cur w)\<lparr>token := None, user := None\<rparr>"
  "seen (logout w) = seen w"
  "cur (updateUser userData w) = (cur w)\<lparr>user := Some (spread (user (cur w)) userData)\<rparr>"
  "seen (updateUser userData w) = seen w"
  by (simp_all add: login_resume_def register_resume_def fetchUser_resume_def logout_def
        updateUser_def split: sum.split prod.split)

lemma cur_render:
  "cur (render w) =
     (if token (cur w) \<noteq> token (seen w) \<and> \<not> truthy (token (cur w))
      then (cur w)\<lparr>loading := False\<rparr> else cur w)"
  by (simp add: render_def fetchUser_def Let_def)

lemma seen_render: "seen (render w) = cur w"
  by (simp add: render_def fetchUser_def Let_def)

lemma stable_boot: "stable (boot ls)"
  by (auto simp: stable_def boot_def me_in_flight_def login_in_flight_def register_in_flight_def
        sent_def mount_def render_def fetchUser_def truthy_def Let_def split: option.splits)

lemma stable_answer_login:
  assumes "stable s" and "login_in_flight s \<noteq> 0"
  shows "stable (s\<lparr>wld := (case r of Inl e \<Rightarrow> wld s
                             | Inr a \<Rightarrow> render (fst (login_resume r (wld s)))),
                    login_answered := Suc (login_answered s)\<rparr>)"
proof -
  from assms have m: "sent ''/auth/me'' (wld s) \<le> me_answered s"
    and g: "sent ''/auth/register'' (wld s) \<le> register_answered s"
    and l: "sent ''/auth/login'' (wld s) \<le> Suc (login_answered s)"
    and nl: "\<not> loading (cur (wld s))"
    and sc: "seen (wld s) = cur (wld s)"
    and ut: "user (cur (wld s)) \<noteq> None \<longrightarrow> token (cur (wld s)) \<noteq> None"
    by (auto simp: stable_def me_in_flight_def login_in_flight_def register_in_flight_def)
  show ?thesis
  proof (cases r)
    case (Inl e)
    with m g l nl sc ut show ?thesis
      by (simp add: stable_def me_in_flight_def login_in_flight_def register_in_flight_def)
  next
    case (Inr a)
    obtain t u where a: "a = (t, u)" by (cases a)
    with Inr m g l nl sc ut show ?thesis
      by (auto simp add: stable_def me_in_flight_def login_in_flight_def register_in_flight_def
            sent_render sent_silent cur_render seen_render answer_cells truthy_def)
  qed
qed

lemma stable_answer_register:
  assumes "stable s" and "register_in_flight s \<noteq> 0"
  shows "stable (s\<lparr>wld := (case r of Inl e \<Rightarrow> wld s
                             | Inr a \<Rightarrow> render (fst (register_resume r (wld s)))),
                    register_answered := Suc (register_answered s)\<rparr>)"
proof -
  from assms have m: "sent ''/auth/me'' (wld s) \<le> me_answered s"
    and g: "sent ''/auth/register'' (wld s) \<le> Suc (register_answered s)"
    and l: "sent ''/auth/login'' (wld s) \<le> login_answered s"
    and nl: "\<not> loading (cur (wld s))"
    and sc: "seen (wld s) = cur (wld s)"
    and ut: "user (cur (wld s)) \<noteq> None \<longrightarrow> token (cur (wld s)) \<noteq> None"
    by (auto simp: stable_def me_in_flight_def login_in_flight_def register_in_flight_def)
  show ?thesis
  proof (cases r)
    case (Inl e)
    with m g l nl sc ut show ?thesis
      by (simp add: stable_def me_in_flight_def login_in_flight_def register_in_flight_def)
  next
    case (Inr a)
    obtain t u where a: "a = (t, u)" by (cases a)
    with Inr m g l nl sc ut show ?thesis
      by (auto simp add: stable_def me_in_flight_def login_in_flight_def register_in_flight_def
            sent_render sent_silent cur_render seen_render answer_cells truthy_def)
  qed
qed

lemma stable_answer_me:
  assumes "stable s" and "me_in_flight s \<noteq> 0"
  shows "stable (s\<lparr>wld := render (fetchUser_resume r (wld s)),
                    me_answered := Suc (me_answered s)\<rparr>)"
proof -
  from assms have m: "sent ''/auth/me'' (wld s) \<le> Suc (me_answered s)"
    and g: "sent ''/auth/register'' (wld s) \<le> register_answered s"
    and l: "sent ''/auth/login'' (wld s) \<le> login_answered s"
    and sc: "seen (wld s) = cur (wld s)"
    and tk: "token (cur (wld s)) \<noteq> None"
    by (auto simp: stable_def me_in_flight_def login_in_flight_def register_in_flight_def)
  show ?thesis
  proof (cases r)
    case (Inl e)
    with m g l sc tk show ?thesis
      by (auto simp add: stable_def me_in_flight_def login_in_flight_def register_in_flight_def
            sent_render sent_silent cur_render seen_render answer_cells truthy_def)
  next
    case (Inr d)
    with m g l sc tk show ?thesis
      by (auto simp add: stable_def me_in_flight_def login_in_flight_def register_in_flight_def
            sent_render sent_silent cur_render seen_render answer_cells truthy_def)
  qed
qed

lemma stable_step:
  assumes "stable s" and "allowed a s" and "step a s = Some s'"
  shows "stable s'"
proof (cases a)
  case (CallLogin email password)
  with assms show ?thesis
    by (auto simp: stable_def idle_def me_in_flight_def login_in_flight_def
          register_in_flight_def sent_login call_cells)
next
  case (AnswerLogin r)
  with assms(3) have "login_in_flight s \<noteq> 0"
    and "s' = s\<lparr>wld := (case r of Inl e \<Rightarrow> wld s
                             | Inr a \<Rightarrow> render (fst (login_resume r (wld s)))),
                 login_answered := Suc (login_answered s)\<rparr>"
    by (auto split: if_splits)
  with assms(1) show ?thesis
    by (simp add: stable_answer_login)
next
  case (CallRegister email password username full_name)
  with assms show ?thesis
    by (auto simp: stable_def idle_def me_in_flight_def login_in_flight_def
          register_in_flight_def sent_register call_cells)
next
  case (AnswerRegister r)
  with assms(3) have "register_in_flight s \<noteq> 0"
    and "s' = s\<lparr>wld := (case r of Inl e \<Rightarrow> wld s
                             | Inr a \<Rightarrow> render (fst (register_resume r (wld s)))),
                 register_answered := Suc (register_answered s)\<rparr>"
    by (auto split: if_splits)
  with assms(1) show ?thesis
    by (simp add: stable_answer_register)
next
  case (AnswerMe r)
  with assms(3) have "me_in_flight s \<noteq> 0"
    and "s' = s\<lparr>wld := render (fetchUser_resume r (wld s)),
                 me_answered := Suc (me_answered s)\<rparr>"
    by (auto split: if_splits)
  with assms(1) show ?thesis
    by (simp add: stable_answer_me)
next
  case CallLogout
  with assms show ?thesis
    by (auto simp: stable_def me_in_flight_def login_in_flight_def register_in_flight_def
          sent_render sent_silent cur_render seen_render answer_cells truthy_def
          split: if_splits option.splits)
next
  case (CallUpdateUser userData)
  with assms show ?thesis
    by (auto simp: stable_def me_in_flight_def login_in_flight_def register_in_flight_def
          sent_render sent_silent cur_render seen_render answer_cells truthy_def
          split: if_splits option.splits)
qed

lemma stable_exec:
  "stable s \<Longrightarrow> orderly acts s \<Longrightarrow> \<exists>s'. exec acts s = Some s' \<and> stable s'"
proof (induction acts arbitrary: s)
  case Nil
  then show ?case by simp
next
  case (Cons a as)
  from Cons.prems(2) obtain s1 where st: "step a s = Some s1" and al: "allowed a s"
    and rest: "orderly as s1"
    by (auto split: option.splits)
  from stable_step [OF Cons.prems(1) al st] have "stable s1" .
  from Cons.IH [OF this rest] st show ?case by simp
qed

lemma orderly_prefix: "orderly (xs @ ys) s \<Longrightarrow> orderly xs s"
  by (induction xs arbitrary: s) (auto split: option.splits)

lemma stable_session_inv: "stable s \<Longrightarrow> session_inv (cur (wld s))"
  by (auto simp: stable_def session_inv_def status_of_def ProtectedRoute_def PublicRoute_def)

lemma in_flight_upd:
  "me_in_flight (s\<lparr>wld := w\<rparr>) = sent ''/auth/me'' w - me_answered s"
  "login_in_flight (s\<lparr>wld := w\<rparr>) = sent ''/auth/login'' w - login_answered s"
  "register_in_flight (s\<lparr>wld := w\<rparr>) = sent ''/auth/register'' w - register_answered s"
  by (simp_all add: me_in_flight_def login_in_flight_def register_in_flight_def)

section \<open>Request-client factory without a token\<close>

text \<open>
  C10, as stated, fails. The session is authenticated with token \<^verbatim>\<open>T0\<close> and
  \<^verbatim>\<open>logout()\<close> runs: the cells and the storage hold no token, but until the next render
  the factory that callers hold is the closure of the last render, and its configuration
  bears \<^verbatim>\<open>Bearer T0\<close>.
\<close>

theorem api_after_logout_counterexample:
  "headers (api ''http://localhost:8001/api''
      (token (seen (logout (initialize (Some ''T0'') (Inr [(''id'', ''1'')]))))))
     = [(''Authorization'', ''Bearer T0'')]
   \<and> token (cur (logout (initialize (Some ''T0'') (Inr [(''id'', ''1'')])))) = None
   \<and> storage (logout (initialize (Some ''T0'') (Inr [(''id'', ''1'')]))) = None"
  by code_simp

text \<open>
  C10, amended. The factory reads the token of the render that created it. When that token
  is \<^verbatim>\<open>null\<close> or the empty string, the configuration has no headers at all, and an
  \<^verbatim>\<open>Authorization\<close> header is present exactly for a truthy token. \<^verbatim>\<open>logout()\<close> leaves
  the closures of the last render as they are; the factory of any later render bears the
  token of the cells at that render, so the factory of the render after \<^verbatim>\<open>logout()\<close> or
  after a failed identity check has no headers.
\<close>

theorem api_without_token:
  "headers (api API_URL None) = []
   \<and> headers (api API_URL (Some [])) = []
   \<and> (map_of (headers (api API_URL tok)) ''Authorization'' \<noteq> None) = truthy tok
   \<and> seen (logout w) = seen w
   \<and> headers (api API_URL (token (seen (render w)))) = auth_headers (token (cur w))
   \<and> headers (api API_URL (token (seen (render (logout w))))) = []
   \<and> headers (api API_URL (token (seen (render (fetchUser_resume (Inl e) w))))) = []"
  by (simp add: api_def auth_headers_def truthy_def seen_render answer_cells split: option.split)

section \<open>Route gates\<close>

text \<open>
  C5, as stated, fails. With the identity \<^verbatim>\<open>{id: "1"}\<close>, no token and \<^verbatim>\<open>loading\<close> false
  the status is anonymous, yet the protected gate shows its children and the public-only
  gate redirects to \<^verbatim>\<open>/\<close>. The gates see this session after a logout followed by
  \<^verbatim>\<open>updateUser({id: "1"})\<close>.
\<close>

theorem route_gates_counterexample:
  "\<not> session_inv \<lparr>user = Some [(''id'', ''1'')], token = None, loading = False\<rparr>
   \<and> status_of \<lparr>user = Some [(''id'', ''1'')], token = None, loading = False\<rparr> = Anonymous
   \<and> ProtectedRoute \<lparr>user = Some [(''id'', ''1'')], token = None, loading = False\<rparr> = Children
   \<and> PublicRoute \<lparr>user = Some [(''id'', ''1'')], token = None, loading = False\<rparr> = Navigate ''/''
   \<and> after seen [AnswerMe (Inr [(''id'', ''0'')]), CallLogout, CallUpdateUser [(''id'', ''1'')]]
        (boot (Some ''T0''))
     = Some \<lparr>user = Some [(''id'', ''1'')], token = None, loading = False\<rparr>"
  by code_simp

text \<open>
  C5, amended. The gates render according to \<^verbatim>\<open>loading\<close> and the identity only, never
  the token: the protected gate shows its children exactly when not loading with an
  identity present, the placeholder exactly when loading, the redirect to \<^verbatim>\<open>/auth\<close>
  exactly when not loading with no identity; the public-only gate shows its children
  exactly when not loading with no identity, a placeholder exactly when loading, the
  redirect to \<^verbatim>\<open>/\<close> exactly when not loading with an identity. This is rendering by
  status on every session except two kinds: an identity without a token while not loading
  (status anonymous), and token and identity present while still loading (status
  authenticated).
\<close>

theorem route_gates_by_loading_and_identity:
  "session_inv s =
     (\<not> (user s \<noteq> None \<and> token s = None \<and> \<not> loading s)
      \<and> \<not> (user s \<noteq> None \<and> token s \<noteq> None \<and> loading s))
   \<and> (ProtectedRoute s = Children) = (\<not> loading s \<and> user s \<noteq> None)
   \<and> (ProtectedRoute s = LoadingScreen) = loading s
   \<and> (ProtectedRoute s = Navigate ''/auth'') = (\<not> loading s \<and> user s = None)
   \<and> (PublicRoute s = Children) = (\<not> loading s \<and> user s = None)
   \<and> (PublicRoute s = Spinner) = loading s
   \<and> (PublicRoute s = Navigate ''/'') = (\<not> loading s \<and> user s \<noteq> None)"
  by (auto simp: session_inv_def status_of_def ProtectedRoute_def PublicRoute_def)


section \<open>Logout while a login request is in flight\<close>

text \<open>
  C1, as stated, fails. The session is authenticated with token \<^verbatim>\<open>T0\<close>, a login request
  is sent, \<^verbatim>\<open>logout()\<close> runs, and then the answer \<^verbatim>\<open>{token: "T1", user: {id: "1"}}\<close>
  arrives: the continuation of \<^verbatim>\<open>login\<close> stores and sets the token and the identity, the
  status is authenticated and not anonymous, and the protected gate shows its children.
\<close>

theorem logout_during_login_counterexample:
  "after cur [AnswerMe (Inr [(''id'', ''0'')]), CallLogin ''a@b.com'' ''secret'', CallLogout,
              AnswerLogin (Inr (''T1'', [(''id'', ''1'')]))] (boot (Some ''T0''))
     = Some \<lparr>user = Some [(''id'', ''1'')], token = Some ''T1'', loading = False\<rparr>
   \<and> after seen [AnswerMe (Inr [(''id'', ''0'')]), CallLogin ''a@b.com'' ''secret'', CallLogout,
              AnswerLogin (Inr (''T1'', [(''id'', ''1'')]))] (boot (Some ''T0''))
     = Some \<lparr>user = Some [(''id'', ''1'')], token = Some ''T1'', loading = False\<rparr>
   \<and> after storage [AnswerMe (Inr [(''id'', ''0'')]), CallLogin ''a@b.com'' ''secret'', CallLogout,
              AnswerLogin (Inr (''T1'', [(''id'', ''1'')]))] (boot (Some ''T0''))
     = Some (Some ''T1'')
   \<and> status_of \<lparr>user = Some [(''id'', ''1'')], token = Some ''T1'', loading = False\<rparr>
     = Authenticated
   \<and> ProtectedRoute \<lparr>user = Some [(''id'', ''1'')], token = Some ''T1'', loading = False\<rparr>
     = Children"
  by code_simp

text \<open>
  C1, amended. With a login request in flight and the initial check over, \<^verbatim>\<open>logout()\<close>
  followed by the answer to the login does not discard the answer. A successful answer
  persists and sets the new token and sets the identity: the status is then authenticated,
  the protected gate shows its children, and the render sends one identity check when the
  new token is not empty. A rejected answer leaves the session as \<^verbatim>\<open>logout()\<close> left it:
  status anonymous, no token, no identity, nothing persisted.
\<close>

theorem late_login_answer_is_applied:
  assumes "login_in_flight s \<noteq> 0" and "\<not> loading (cur (wld s))"
  shows "after cur [CallLogout, AnswerLogin (Inr (t, u))] s
           = Some \<lparr>user = Some u, token = Some t, loading = False\<rparr>
       \<and> after seen [CallLogout, AnswerLogin (Inr (t, u))] s
           = Some \<lparr>user = Some u, token = Some t, loading = False\<rparr>
       \<and> after storage [CallLogout, AnswerLogin (Inr (t, u))] s = Some (Some t)
       \<and> status_of \<lparr>user = Some u, token = Some t, loading = False\<rparr> = Authenticated
       \<and> ProtectedRoute \<lparr>user = Some u, token = Some t, loading = False\<rparr> = Children
       \<and> after (sent ''/auth/me'') [CallLogout, AnswerLogin (Inr (t, u))] s
           = Some (sent ''/auth/me'' (wld s) + (if t \<noteq> [] then 1 else 0))
       \<and> after cur [CallLogout, AnswerLogin (Inl e)] s
           = Some \<lparr>user = None, token = None, loading = False\<rparr>
       \<and> after seen [CallLogout, AnswerLogin (Inl e)] s
           = Some \<lparr>user = None, token = None, loading = False\<rparr>
       \<and> after storage [CallLogout, AnswerLogin (Inl e)] s = Some None
       \<and> status_of \<lparr>user = None, token = None, loading = False\<rparr> = Anonymous"
proof -
  have lo: "cur (render (logout (wld s))) = \<lparr>user = None, token = None, loading = False\<rparr>"
    using assms(2) by (simp add: cur_render answer_cells)
  have fl: "login_in_flight (s\<lparr>wld := render (logout (wld s))\<rparr>) \<noteq> 0"
    using assms(1) by (simp add: in_flight_upd sent_render sent_silent login_in_flight_def)
  have ok: "cur (render (fst (login_resume (Inr (t, u)) (render (logout (wld s))))))
              = \<lparr>user = Some u, token = Some t, loading = False\<rparr>"
    using lo by (simp add: cur_render answer_cells)
  have st: "storage (render (fst (login_resume (Inr (t, u)) (render (logout (wld s)))))) = Some t"
    "storage (render (logout (wld s))) = None"
    by (simp_all add: render_def fetchUser_def login_resume_def logout_def Let_def)
  have sn: "seen (render (fst (login_resume (Inr (t, u)) (render (logout (wld s))))))
              = \<lparr>user = Some u, token = Some t, loading = False\<rparr>"
    "seen (render (logout (wld s))) = \<lparr>user = None, token = None, loading = False\<rparr>"
    using lo assms(2) by (simp_all add: seen_render answer_cells)
  have me: "sent ''/auth/me'' (render (fst (login_resume (Inr (t, u)) (render (logout (wld s))))))
              = sent ''/auth/me'' (wld s) + (if t \<noteq> [] then 1 else 0)"
    using lo by (simp add: sent_render sent_silent seen_render answer_cells truthy_def)
  from lo fl ok st sn me show ?thesis
    by (simp add: after_def status_of_def ProtectedRoute_def)
qed

text \<open>
  Witness for C1: the session of token \<^verbatim>\<open>T0\<close> with one login request in flight.
\<close>

theorem late_login_answer_is_applied_witness:
  "login_in_flight
     \<lparr>wld = login ''a@b.com'' ''secret'' (initialize (Some ''T0'') (Inr [(''id'', ''0'')])),
      me_answered = 1, login_answered = 0, register_answered = 0\<rparr> \<noteq> 0
   \<and> \<not> loading (cur (wld
     \<lparr>wld = login ''a@b.com'' ''secret'' (initialize (Some ''T0'') (Inr [(''id'', ''0'')])),
      me_answered = 1, login_answered = 0, register_answered = 0\<rparr>))
   \<and> after cur [CallLogout, AnswerLogin (Inr (''T1'', [(''id'', ''1'')]))]
     \<lparr>wld = login ''a@b.com'' ''secret'' (initialize (Some ''T0'') (Inr [(''id'', ''0'')])),
      me_answered = 1, login_answered = 0, register_answered = 0\<rparr>
     = Some \<lparr>user = Some [(''id'', ''1'')], token = Some ''T1'', loading = False\<rparr>"
proof -
  have a: "login_in_flight
     \<lparr>wld = login ''a@b.com'' ''secret'' (initialize (Some ''T0'') (Inr [(''id'', ''0'')])),
      me_answered = 1, login_answered = 0, register_answered = 0\<rparr> \<noteq> 0"
    by code_simp
  have b: "\<not> loading (cur (wld
     \<lparr>wld = login ''a@b.com'' ''secret'' (initialize (Some ''T0'') (Inr [(''id'', ''0'')])),
      me_answered = 1, login_answered = 0, register_answered = 0\<rparr>))"
    by code_simp
  from late_login_answer_is_applied [OF a b, of "''T1''" "[(''id'', ''1'')]"] a b show ?thesis by simp
qed

section \<open>The factory right after a login\<close>

text \<open>
  C2, as stated, fails. The session is authenticated with token \<^verbatim>\<open>T0\<close> and a login
  succeeds with token \<^verbatim>\<open>T1\<close>. Before the next render the factory that callers hold is the
  closure of the last render, and its configuration bears \<^verbatim>\<open>Bearer T0\<close>.
\<close>

theorem api_after_login_counterexample:
  "headers (api ''http://localhost:8001/api''
      (token (seen (fst (login_resume (Inr (''T1'', [(''id'', ''1'')]))
         (login ''a@b.com'' ''secret'' (initialize (Some ''T0'') (Inr [(''id'', ''1'')]))))))))
   = [(''Authorization'', ''Bearer T0'')]"
  by code_simp

text \<open>
  C2, amended. The continuation of \<^verbatim>\<open>login\<close> leaves the closures of the last render as
  they are; the factory created by the next render bears the newly issued token (no
  header when that token is the empty string).
\<close>

theorem api_after_login_and_render:
  "seen (fst (login_resume r w)) = seen w
   \<and> headers (api API_URL (token (seen (render (fst (login_resume (Inr (t, u)) w))))))
     = (if t \<noteq> [] then [(''Authorization'', ''Bearer '' @ t)] else [])"
  by (simp add: seen_render login_resume_def api_def auth_headers_def
        split: sum.split prod.split)

section \<open>The session invariant\<close>

text \<open>
  C3, as stated, fails. First case, without any \<^verbatim>\<open>updateUser\<close>: a login succeeds, the
  render after it sends the identity check, \<^verbatim>\<open>logout()\<close> runs while that check is in
  flight, and then the check is answered with an identity. The effect has no cleanup, so
  the identity is set while the token stays \<^verbatim>\<open>null\<close>: the status is anonymous, yet the
  protected gate shows its children. Second case: with no session,
  \<^verbatim>\<open>updateUser({bio: "x"})\<close> sets an identity without a token.
\<close>

theorem session_invariant_counterexample:
  "after cur [CallLogin ''a@b.com'' ''secret'', AnswerLogin (Inr (''T1'', [(''id'', ''1'')])),
              CallLogout, AnswerMe (Inr [(''id'', ''1'')])] (boot None)
     = Some \<lparr>user = Some [(''id'', ''1'')], token = None, loading = False\<rparr>
   \<and> after seen [CallLogin ''a@b.com'' ''secret'', AnswerLogin (Inr (''T1'', [(''id'', ''1'')])),
              CallLogout, AnswerMe (Inr [(''id'', ''1'')])] (boot None)
     = Some \<lparr>user = Some [(''id'', ''1'')], token = None, loading = False\<rparr>
   \<and> \<not> session_inv \<lparr>user = Some [(''id'', ''1'')], token = None, loading = False\<rparr>
   \<and> status_of \<lparr>user = Some [(''id'', ''1'')], token = None, loading = False\<rparr> = Anonymous
   \<and> ProtectedRoute \<lparr>user = Some [(''id'', ''1'')], token = None, loading = False\<rparr> = Children
   \<and> after cur [CallUpdateUser [(''bio'', ''x'')]] (boot None)
     = Some \<lparr>user = Some [(''bio'', ''x'')], token = None, loading = False\<rparr>
   \<and> \<not> session_inv \<lparr>user = Some [(''bio'', ''x'')], token = None, loading = False\<rparr>"
  by code_simp

text \<open>
  C3, amended. Take any sequence of calls and answers after process start in which
  \<^verbatim>\<open>login\<close> and \<^verbatim>\<open>register\<close> are called only while no request is in flight,
  \<^verbatim>\<open>logout\<close> only while no identity check is in flight, and \<^verbatim>\<open>updateUser\<close> only while an
  identity is present. Then every task of the sequence can run, and after each of them
  (after every initial part of the sequence) the gates act as the status prescribes, the rendered values are the state cells, the status is
  authenticated exactly when an identity is present (and then the token is present too),
  and the status is resolving exactly while \<^verbatim>\<open>loading\<close> is set, which is only while the
  first identity check of the process is in flight.
\<close>

theorem session_invariant_orderly_runs:
  assumes "orderly (acts @ rest) (boot ls)"
  shows "\<exists>s. exec acts (boot ls) = Some s
           \<and> session_inv (cur (wld s))
           \<and> session_inv (seen (wld s))
           \<and> seen (wld s) = cur (wld s)
           \<and> (status_of (cur (wld s)) = Authenticated) = (user (cur (wld s)) \<noteq> None)
           \<and> (status_of (cur (wld s)) = Resolving) = loading (cur (wld s))
           \<and> (status_of (cur (wld s)) = Resolving \<longrightarrow>
                 me_in_flight s = 1 \<and> me_answered s = 0)"
proof -
  from assms have "orderly acts (boot ls)"
    by (rule orderly_prefix)
  from stable_exec [OF stable_boot this] obtain s
    where e: "exec acts (boot ls) = Some s" and st: "stable s"
    by blast
  from st have sc: "seen (wld s) = cur (wld s)"
    by (simp add: stable_def)
  from st have "session_inv (cur (wld s))"
    by (rule stable_session_inv)
  moreover from this sc have "session_inv (seen (wld s))"
    by simp
  moreover note sc
  moreover from st have "(status_of (cur (wld s)) = Authenticated) = (user (cur (wld s)) \<noteq> None)"
    and "(status_of (cur (wld s)) = Resolving) = loading (cur (wld s))"
    and "status_of (cur (wld s)) = Resolving \<longrightarrow> me_in_flight s = 1 \<and> me_answered s = 0"
    by (auto simp: stable_def status_of_def)
  ultimately show ?thesis using e by blast
qed

text \<open>
  Witness for C3: a persisted token that the backend rejects, then a successful login
  with its identity check, an identity update and a logout.
\<close>

theorem session_invariant_orderly_runs_witness:
  "orderly ([AnswerMe (Inl (AxiosError None)), CallLogin ''a@b.com'' ''secret'',
             AnswerLogin (Inr (''T1'', [(''id'', ''1'')])), AnswerMe (Inr [(''id'', ''1'')])]
            @ [CallUpdateUser [(''bio'', ''x'')], CallLogout]) (boot (Some ''T0''))
   \<and> (\<exists>s. exec [AnswerMe (Inl (AxiosError None)), CallLogin ''a@b.com'' ''secret'',
            AnswerLogin (Inr (''T1'', [(''id'', ''1'')])), AnswerMe (Inr [(''id'', ''1'')])]
           (boot (Some ''T0'')) = Some s
          \<and> session_inv (cur (wld s)) \<and> seen (wld s) = cur (wld s))"
proof -
  have g: "orderly ([AnswerMe (Inl (AxiosError None)), CallLogin ''a@b.com'' ''secret'',
             AnswerLogin (Inr (''T1'', [(''id'', ''1'')])), AnswerMe (Inr [(''id'', ''1'')])]
            @ [CallUpdateUser [(''bio'', ''x'')], CallLogout]) (boot (Some ''T0''))"
    by code_simp
  from session_invariant_orderly_runs [OF g] g show ?thesis by blast
qed

section \<open>A failed login\<close>

text \<open>
  C4. For every state and every login whose request is rejected, the state cells, the
  rendered values and the persisted token after the call are those before it, and the
  call ends with the rejection.
\<close>

theorem failed_login_changes_nothing:
  "cur (fst (login_resume (Inl e) (login email password w))) = cur w
   \<and> seen (fst (login_resume (Inl e) (login email password w))) = seen w
   \<and> storage (fst (login_resume (Inl e) (login email password w))) = storage w
   \<and> snd (login_resume (Inl e) (login email password w)) = Inl e"
  by (simp add: login_resume_def login_def)

section \<open>Initialize with a rejected token\<close>

text \<open>
  C6. With a persisted truthy token whose identity check fails, for whatever reason,
  \<^verbatim>\<open>initialize\<close> ends with status anonymous, no identity, no token and the persisted token
  removed; \<^verbatim>\<open>initialize\<close> on the storage it leaves is \<^verbatim>\<open>initialize\<close> on empty storage,
  which sends no identity check and ends anonymous.
\<close>

theorem initialize_rejected_token:
  assumes "t \<noteq> []"
  shows "cur (initialize (Some t) (Inl e)) = \<lparr>user = None, token = None, loading = False\<rparr>
       \<and> seen (initialize (Some t) (Inl e)) = cur (initialize (Some t) (Inl e))
       \<and> status_of (cur (initialize (Some t) (Inl e))) = Anonymous
       \<and> storage (initialize (Some t) (Inl e)) = None
       \<and> initialize (storage (initialize (Some t) (Inl e))) r = initialize None r
       \<and> identity_fetches (trace (initialize None r)) = []
       \<and> status_of (cur (initialize None r)) = Anonymous"
  using assms
  by (simp add: initialize_def mount_def render_def fetchUser_def fetchUser_resume_def
        truthy_def status_of_def identity_fetches_def Let_def)

text \<open>Witness for C6: the persisted token \<^verbatim>\<open>T0\<close> has expired.\<close>

theorem initialize_rejected_token_witness:
  "''T0'' \<noteq> []
   \<and> cur (initialize (Some ''T0'') (Inl (AxiosError (Some ''Token expired''))))
       = \<lparr>user = None, token = None, loading = False\<rparr>
   \<and> storage (initialize (Some ''T0'') (Inl (AxiosError (Some ''Token expired'')))) = None
   \<and> initialize (storage (initialize (Some ''T0'') (Inl (AxiosError (Some ''Token expired'')))))
        (Inr [(''id'', ''1'')]) = initialize None (Inr [(''id'', ''1'')])"
proof -
  have h: "''T0'' \<noteq> []" by simp
  from initialize_rejected_token
         [OF h, of "AxiosError (Some ''Token expired'')" "Inr [(''id'', ''1'')]"] h
  show ?thesis by simp
qed

section \<open>Propagation of expected failures\<close>

text \<open>
  C7, as stated, fails. With bad credentials the backend rejects the login request, and
  \<^verbatim>\<open>login\<close>, which has no \<^verbatim>\<open>catch\<close>, ends with that rejection: it raises into the page
  that called it.
\<close>

theorem login_raises_counterexample:
  "isl (snd (login_resume (Inl (AxiosError (Some ''Invalid email or password'')))
        (login ''a@b.com'' ''wrong'' (initialize None (Inl (AxiosError None))))))"
  by (simp add: login_resume_def)

text \<open>
  C7, amended. A rejected \<^verbatim>\<open>login\<close> or \<^verbatim>\<open>register\<close> leaves the state unchanged and raises
  the backend's error to its caller; the submit handler of the entry page catches it, never
  raises itself, and shows the backend's detail or \<^verbatim>\<open>Something went wrong\<close>. A failed
  identity check is caught inside the provider and forces the anonymous session.
\<close>

theorem expected_failures_outcomes:
  "login_resume (Inl e) w = (w, Inl e)
   \<and> register_resume (Inl e) w = (w, Inl e)
   \<and> \<not> isl (snd (handleSubmit isLogin email password username fullName r w))
   \<and> snd (handleSubmit isLogin email password username fullName (Inl e) w) =
       Inr \<lparr>shown = Failure (case detail e of
                                None \<Rightarrow> ''Something went wrong''
                              | Some d \<Rightarrow> if d \<noteq> [] then d else ''Something went wrong''),
            navigated = None\<rparr>
   \<and> cur (fst (handleSubmit isLogin email password username fullName (Inl e) w)) = cur w
   \<and> storage (fst (handleSubmit isLogin email password username fullName (Inl e) w)) = storage w
   \<and> status_of (cur (fetchUser_resume (Inl e) w)) = Anonymous
   \<and> token (cur (fetchUser_resume (Inl e) w)) = None
   \<and> storage (fetchUser_resume (Inl e) w) = None"
  by (auto simp add: login_resume_def register_resume_def login_def register_def
        handleSubmit_def try_catch_def fetchUser_resume_def status_of_def Let_def
        split: sum.split prod.split)

section \<open>How often the identity check runs\<close>

text \<open>
  C8, as stated, fails. The process starts with the valid token \<^verbatim>\<open>T0\<close>, then a login
  succeeds with token \<^verbatim>\<open>T1\<close> and the identity check that follows is answered: the trace holds two requests to \<^verbatim>\<open>/auth/me\<close> and four
  evaluations of \<^verbatim>\<open>localStorage.getItem('token')\<close>.
\<close>

theorem identity_check_repeats_counterexample:
  "length (identity_fetches (trace
      (render (fetchUser_resume (Inr [(''id'', ''1'')])
        (render (fst (login_resume (Inr (''T1'', [(''id'', ''1'')]))
          (login ''a@b.com'' ''secret'' (initialize (Some ''T0'') (Inr [(''id'', ''1'')]))))))))))
     = 2
   \<and> storage_reads (trace
      (render (fetchUser_resume (Inr [(''id'', ''1'')])
        (render (fst (login_resume (Inr (''T1'', [(''id'', ''1'')]))
          (login ''a@b.com'' ''secret'' (initialize (Some ''T0'') (Inr [(''id'', ''1'')])))))))))
     = 4"
  by code_simp

text \<open>
  C8, amended. The identity check is an effect keyed on the token. The first render reads
  the storage and sends the check when the persisted token is truthy. Every later render
  evaluates the storage read again, and when the token differs from the token of the
  render before and is truthy, it sends one more check bearing the new token (so after a
  login or register that changed the token, never after a logout). The continuations of
  the identity check, of login and register, logout and updateUser send and read nothing.
\<close>

theorem identity_check_keyed_on_token:
  "trace (mount ls) =
     GetItem # (if truthy ls then [Request ''GET'' ''/auth/me'' (auth_headers ls) []] else [])
   \<and> trace (render w) =
     trace w @ GetItem #
       (if token (cur w) \<noteq> token (seen w) \<and> truthy (token (cur w))
        then [Request ''GET'' ''/auth/me'' (auth_headers (token (cur w))) []] else [])
   \<and> trace (fetchUser_resume r' w) = trace w
   \<and> trace (fst (login_resume r w)) = trace w
   \<and> trace (fst (register_resume r w)) = trace w
   \<and> trace (logout w) = trace w
   \<and> trace (updateUser userData w) = trace w"
  by (auto simp add: mount_def render_def fetchUser_def fetchUser_resume_def login_resume_def
        register_resume_def logout_def updateUser_def Let_def split: sum.split prod.split)

section \<open>Updating the identity\<close>

text \<open>
  C9, as stated, fails. After a logout, \<^verbatim>\<open>updateUser({bio: "x"})\<close> is neither a no-op nor
  an error: the identity becomes \<^verbatim>\<open>{bio: "x"}\<close> while the token is \<^verbatim>\<open>null\<close>.
\<close>

theorem update_identity_counterexample:
  "user (cur (updateUser [(''bio'', ''x'')]
      (logout (initialize (Some ''T0'') (Inr [(''id'', ''1'')])))))
     = Some [(''bio'', ''x'')]
   \<and> token (cur (updateUser [(''bio'', ''x'')]
      (logout (initialize (Some ''T0'') (Inr [(''id'', ''1'')]))))) = None"
  by code_simp

text \<open>
  C9, amended. In every status \<^verbatim>\<open>updateUser\<close> replaces the identity by the shallow merge
  of the previous identity and the given fields, an absent identity counting as the empty
  object: a field named in the given fields takes the given value, every other field keeps
  its previous value, and the result is again an object. It changes neither the token nor
  \<^verbatim>\<open>loading\<close> nor the storage and sends no request. Objects have pairwise distinct field
  names.
\<close>

theorem update_identity_shallow_merge:
  assumes "distinct (map fst p)" and "distinct (map fst userData)"
  shows "user (cur (updateUser userData w)) = Some (spread (user (cur w)) userData)
   \<and> map_of (spread (Some p) userData) k =
       (case map_of userData k of Some v \<Rightarrow> Some v | None \<Rightarrow> map_of p k)
   \<and> map_of (spread None userData) k = map_of userData k
   \<and> distinct (map fst (spread (Some p) userData))
   \<and> token (cur (updateUser userData w)) = token (cur w)
   \<and> loading (cur (updateUser userData w)) = loading (cur w)
   \<and> seen (updateUser userData w) = seen w
   \<and> storage (updateUser userData w) = storage w
   \<and> trace (updateUser userData w) = trace w"
  using assms
  by (simp add: updateUser_def spread_def map_of_assign map_add_def map_of_rev_distinct
        distinct_assign)

text \<open>
  Witness for C9: \<^verbatim>\<open>{id: "1", username: "a"}\<close> updated with
  \<^verbatim>\<open>{username: "b", bio: "x"}\<close> in an authenticated session.
\<close>

theorem update_identity_shallow_merge_witness:
  "distinct (map fst [(''id'', ''1''), (''username'', ''a'')])
   \<and> distinct (map fst [(''username'', ''b''), (''bio'', ''x'')])
   \<and> spread (Some [(''id'', ''1''), (''username'', ''a'')]) [(''username'', ''b''), (''bio'', ''x'')]
       = [(''id'', ''1''), (''username'', ''b''), (''bio'', ''x'')]
   \<and> map_of (spread (Some [(''id'', ''1''), (''username'', ''a'')])
              [(''username'', ''b''), (''bio'', ''x'')]) ''id'' = Some ''1''
   \<and> token (cur (updateUser [(''username'', ''b''), (''bio'', ''x'')]
        (initialize (Some ''T0'') (Inr [(''id'', ''1''), (''username'', ''a'')])))) = Some ''T0''"
proof -
  have d1: "distinct (map fst [(''id'', ''1''), (''username'', ''a'')])" by simp
  have d2: "distinct (map fst [(''username'', ''b''), (''bio'', ''x'')])" by simp
  have s: "spread (Some [(''id'', ''1''), (''username'', ''a'')]) [(''username'', ''b''), (''bio'', ''x'')]
       = [(''id'', ''1''), (''username'', ''b''), (''bio'', ''x'')]"
    by code_simp
  have t: "token (cur (initialize (Some ''T0'') (Inr [(''id'', ''1''), (''username'', ''a'')]))) = Some ''T0''"
    by code_simp
  from update_identity_shallow_merge [OF d1 d2, of
      "initialize (Some ''T0'') (Inr [(''id'', ''1''), (''username'', ''a'')])" "''id''"]
    d1 d2 s t
  show ?thesis by simp
qed

end
